theory Spec2Isabelle
  imports Main "HOL-Library.Word"
begin

unbundle bit_operations_syntax

section \<open>Data model of \<open>AggregateFunctionUniq.h\<close>\<close>

type_synonym byte = "8 word"
type_synonym UInt64 = "64 word"

text \<open>
  \<open>UInt128\<close> is a struct of two \<open>UInt64\<close> fields, \<open>low\<close> first (the source reads and
  writes \<open>key.low\<close> and \<open>key.high\<close>; its declaration is in \<open>Common/UInt128.h\<close>).
\<close>

record UInt128 =
  low :: UInt64
  high :: UInt64

text \<open>
  \<open>StringRef\<close> is a pointer and a size. The pointer is modelled by the bytes of the column
  found from that address on: the \<open>size\<close> bytes of the string, then whatever the column
  stores behind them (the next rows and the padding).
\<close>

record StringRef =
  data :: "byte list"
  size' :: nat

text \<open>The reference to a string \<open>s\<close> that has the bytes \<open>behind\<close> after it in the column.\<close>

definition string_ref :: "byte list \<Rightarrow> byte list \<Rightarrow> StringRef" where
  "string_ref s behind = \<lparr>data = s @ behind, size' = length s\<rparr>"

definition toString :: "StringRef \<Rightarrow> byte list" where
  "toString v = take (size' v) (data v)"

text \<open>The bytes of a string literal, one byte per character.\<close>

definition bytes_of :: "string \<Rightarrow> byte list" where
  "bytes_of cs = map of_char cs"

section \<open>The SSSE3 instructions the exact string path uses\<close>

text \<open>
  A 128-bit register is the list of its 16 bytes, lowest address first.
  \<open>_mm_loadu_si128\<close> reads 16 bytes from an address; \<open>_mm_shuffle_epi8 a b\<close> gives, at
  every position, zero when the selector byte of \<open>b\<close> has its top bit set and otherwise
  the byte of \<open>a\<close> that the low four bits of the selector name; \<open>_mm_storeu_si128\<close> writes
  the 16 bytes over the key, whose two fields are little-endian 64-bit integers.
\<close>

definition mm_loadu_si128 :: "byte list \<Rightarrow> byte list" where
  "mm_loadu_si128 mem = take 16 mem"

definition mm_shuffle_epi8 :: "byte list \<Rightarrow> byte list \<Rightarrow> byte list" where
  "mm_shuffle_epi8 a b = map (\<lambda>m. if bit m 7 then 0 else a ! unat (m AND 15)) b"

definition le64 :: "byte list \<Rightarrow> UInt64" where
  "le64 bs = foldr (\<lambda>b w. ucast b OR push_bit 8 w) bs 0"

definition mm_storeu_si128 :: "byte list \<Rightarrow> UInt128" where
  "mm_storeu_si128 v = \<lparr>low = le64 (take 8 v), high = le64 (drop 8 v)\<rparr>"

text \<open>The table \<open>masks\<close> of \<open>OneAdder::add\<close>, as the source lists it (\<open>Int8\<close> entries).\<close>

definition masks :: "byte list" where
  "masks =
   [- 1, - 1, - 1, - 1, - 1, - 1, - 1, - 1, - 1, - 1, - 1, - 1, - 1, - 1, - 1, - 1,
    0, - 1, - 1, - 1, - 1, - 1, - 1, - 1, - 1, - 1, - 1, - 1, - 1, - 1, - 1, - 1,
    0, 1, - 1, - 1, - 1, - 1, - 1, - 1, - 1, - 1, - 1, - 1, - 1, - 1, - 1, - 1,
    0, 1, 2, - 1, - 1, - 1, - 1, - 1, - 1, - 1, - 1, - 1, - 1, - 1, - 1, - 1,
    0, 1, 2, 3, - 1, - 1, - 1, - 1, - 1, - 1, - 1, - 1, - 1, - 1, - 1, - 1,
    0, 1, 2, 3, 4, - 1, - 1, - 1, - 1, - 1, - 1, - 1, - 1, - 1, - 1, - 1,
    0, 1, 2, 3, 4, 5, - 1, - 1, - 1, - 1, - 1, - 1, - 1, - 1, - 1, - 1,
    0, 1, 2, 3, 4, 5, 6, - 1, - 1, - 1, - 1, - 1, - 1, - 1, - 1, - 1,
    0, 1, 2, 3, 4, 5, 6, 7, - 1, - 1, - 1, - 1, - 1, - 1, - 1, - 1,
    0, 1, 2, 3, 4, 5, 6, 7, 8, - 1, - 1, - 1, - 1, - 1, - 1, - 1,
    0, 1, 2, 3, 4, 5, 6, 7, 8, 9, - 1, - 1, - 1, - 1, - 1, - 1,
    0, 1, 2, 3, 4, 5, 6, 7, 8, 9, 10, - 1, - 1, - 1, - 1, - 1,
    0, 1, 2, 3, 4, 5, 6, 7, 8, 9, 10, 11, - 1, - 1, - 1, - 1,
    0, 1, 2, 3, 4, 5, 6, 7, 8, 9, 10, 11, 12, - 1, - 1, - 1,
    0, 1, 2, 3, 4, 5, 6, 7, 8, 9, 10, 11, 12, 13, - 1, - 1,
    0, 1, 2, 3, 4, 5, 6, 7, 8, 9, 10, 11, 12, 13, 14, - 1]"

text \<open>\<open>reinterpret_cast<const __m128i *>(masks) + n\<close>: the \<open>n\<close>-th block of 16 bytes.\<close>

definition mm_load_si128_masks :: "nat \<Rightarrow> byte list" where
  "mm_load_si128_masks n = take 16 (drop (16 * n) masks)"

section \<open>The exact key of a string: \<open>OneAdder::add\<close>, lines 186 to 250\<close>

text \<open>
  \<open>ssse3\<close> is the build condition \<open>defined(__SSSE3__) && !defined(MEMORY_SANITIZER)\<close>.
  \<open>SipHash\<close> (\<open>Common/SipHash.h\<close>) is a parameter: \<open>sipHash128 s\<close> is the pair that
  \<open>hash.update(value.data, value.size); hash.get128(key.low, key.high)\<close> leaves in the key.
\<close>

definition mix_key :: "UInt128 \<Rightarrow> UInt128" where
  "mix_key key =
    (let k1 = key\<lparr>low := low key XOR drop_bit 33 (low key)\<rparr>;
         k2 = k1\<lparr>low := low k1 * 0xff51afd7ed558ccd\<rparr>;
         k3 = k2\<lparr>low := low k2 XOR high k2\<rparr>;
         k4 = k3\<lparr>low := low k3 XOR drop_bit 33 (low k3)\<rparr>;
         k5 = k4\<lparr>low := low k4 * 0xc4ceb9fe1a85ec53\<rparr>
     in k5\<lparr>low := low k5 XOR drop_bit 33 (low k5)\<rparr>)"

definition uniqExact_string_key :: "bool \<Rightarrow> (byte list \<Rightarrow> UInt128) \<Rightarrow> StringRef \<Rightarrow> UInt128" where
  "uniqExact_string_key ssse3 sipHash128 v =
    (if ssse3 \<and> size' v \<le> 15 then
       mix_key (mm_storeu_si128
         (mm_shuffle_epi8 (mm_loadu_si128 (data v)) (mm_load_si128_masks (size' v))))
     else
       (let key = sipHash128 (toString v)
        in if ssse3 then key\<lparr>high := high key OR 0x8000000000000000\<rparr> else key))"

text \<open>What the shuffle leaves in the register: the string, then zero bytes up to 16.\<close>

definition zero_pad16 :: "byte list \<Rightarrow> byte list" where
  "zero_pad16 s = s @ replicate (16 - length s) 0"

text \<open>The key of the first branch, written over the padded string.\<close>

definition embedded_key :: "byte list \<Rightarrow> UInt128" where
  "embedded_key s = mix_key (mm_storeu_si128 (zero_pad16 s))"

section \<open>The approximate key of a number: \<open>AggregateFunctionUniqTraits::hash\<close>\<close>

text \<open>
  A value of a column \<open>ColumnVector<T>\<close>, tagged with its type \<open>T\<close>. Integers are their
  two's complement words and floating-point numbers their IEEE 754 bit patterns, which is
  all that \<open>hash\<close> reads of them. \<open>VOtherWide\<close> stands for any other type with
  \<open>sizeof(T) > sizeof(UInt64)\<close>, given by the bytes of the value.
\<close>

datatype number =
    VUInt8 "8 word" | VUInt16 "16 word" | VUInt32 "32 word" | VUInt64 "64 word"
  | VInt8 "8 word" | VInt16 "16 word" | VInt32 "32 word" | VInt64 "64 word"
  | VFloat32 "32 word" | VFloat64 "64 word"
  | VUInt128 UInt128
  | VOtherWide "byte list"

text \<open>
  Modelled from the spec: \<open>ext::bit_cast<UInt64>\<close> (\<open>ext/bit_cast.h\<close> is not among the
  sources) "reinterprets floating-point bit patterns as 64-bit integers (no rounding, NaN
  bit patterns preserved exactly)". The bytes of the value are copied over a zeroed
  \<open>UInt64\<close>, so that the 32 bits of a \<open>Float32\<close> are the low half of the result.
\<close>

definition bit_cast_UInt64 :: "'a::len word \<Rightarrow> UInt64" where
  "bit_cast_UInt64 x = ucast x"

text \<open>
  \<open>hash\<close>, in the order of its \<open>if constexpr\<close> chain. \<open>sipHash64\<close> and \<open>DefaultHash64\<close>
  (\<open>Common/SipHash.h\<close>, \<open>Common/HashTable/Hash.h\<close>) are parameters. \<open>return x\<close> converts
  an integer to \<open>UInt64\<close>: an unsigned one is extended with zeros, a signed one with its
  sign.
\<close>

fun hash :: "(UInt128 \<Rightarrow> UInt64) \<Rightarrow> (byte list \<Rightarrow> UInt64) \<Rightarrow> number \<Rightarrow> UInt64" where
  "hash sipHash64 DefaultHash64 (VUInt128 x) = sipHash64 x"
| "hash sipHash64 DefaultHash64 (VFloat32 x) = bit_cast_UInt64 x"
| "hash sipHash64 DefaultHash64 (VFloat64 x) = bit_cast_UInt64 x"
| "hash sipHash64 DefaultHash64 (VUInt8 x) = ucast x"
| "hash sipHash64 DefaultHash64 (VUInt16 x) = ucast x"
| "hash sipHash64 DefaultHash64 (VUInt32 x) = ucast x"
| "hash sipHash64 DefaultHash64 (VUInt64 x) = x"
| "hash sipHash64 DefaultHash64 (VInt8 x) = scast x"
| "hash sipHash64 DefaultHash64 (VInt16 x) = scast x"
| "hash sipHash64 DefaultHash64 (VInt32 x) = scast x"
| "hash sipHash64 DefaultHash64 (VInt64 x) = x"
| "hash sipHash64 DefaultHash64 (VOtherWide x) = DefaultHash64 x"

section \<open>The exact set\<close>

text \<open>
  Modelled from the spec: \<open>HashSet\<close> (\<open>Common/HashTable/HashSet.h\<close> is not among the
  sources). Section 4.4: "\<open>insert(key)\<close>: no-op if key already present; else insert into
  open-addressed storage", "\<open>merge(other)\<close>: insert every key of \<open>other\<close> into \<open>self\<close>",
  "\<open>size()\<close>: exact element count". The table is the list of its keys in table order; a
  new key takes the next free place.
\<close>

type_synonym 'k HashSet = "'k list"

definition HashSet_insert :: "'k \<Rightarrow> 'k HashSet \<Rightarrow> 'k HashSet" where
  "HashSet_insert key t = (if key \<in> set t then t else t @ [key])"

definition HashSet_merge :: "'k HashSet \<Rightarrow> 'k HashSet \<Rightarrow> 'k HashSet" where
  "HashSet_merge t rhs = fold HashSet_insert rhs t"

definition HashSet_size :: "'k HashSet \<Rightarrow> nat" where
  "HashSet_size t = length t"

section \<open>\<open>OneAdder::add\<close> and the aggregate function \<open>AggregateFunctionUniq\<close>\<close>

text \<open>
  A column is the list of its rows: \<open>column ! row_num\<close> is \<open>getElement(row_num)\<close>,
  \<open>getData()[row_num]\<close> or \<open>getDataAt(row_num)\<close>. The source does not check \<open>row_num\<close>;
  the caller passes the number of a row of the column.

  For the data of \<open>uniq\<close> and \<open>uniqHLL12\<close> over a number, \<open>add\<close> inserts the hash of the
  value; \<open>set_insert\<close> is the insertion of that set (\<open>UniquesHashSet\<close>,
  \<open>HyperLogLogWithSmallSetOptimization\<close>), a parameter. The set of \<open>uniqHLL12\<close> is
  declared over the key type \<open>T\<close> (line 60), and \<open>insert\<close> is declared in a header that is
  not among the sources: whatever conversion the call makes of the 64-bit hash to the
  parameter type of \<open>insert\<close>, and whatever the set does with the key, is inside
  \<open>set_insert\<close>.
\<close>

definition add_uniq_number ::
  "(UInt64 \<Rightarrow> 'set \<Rightarrow> 'set) \<Rightarrow> (UInt128 \<Rightarrow> UInt64) \<Rightarrow> (byte list \<Rightarrow> UInt64) \<Rightarrow>
   'set \<Rightarrow> number list \<Rightarrow> nat \<Rightarrow> 'set" where
  "add_uniq_number set_insert sipHash64 DefaultHash64 data_set column row_num =
    (let value = column ! row_num
     in set_insert (hash sipHash64 DefaultHash64 value) data_set)"

text \<open>For the data of \<open>uniqExact\<close> over a type that is not \<open>String\<close>: the value itself.\<close>

definition add_uniqExact_number :: "'t HashSet \<Rightarrow> 't list \<Rightarrow> nat \<Rightarrow> 't HashSet" where
  "add_uniqExact_number data_set column row_num = HashSet_insert (column ! row_num) data_set"

text \<open>For the data of \<open>uniqExact\<close> over \<open>String\<close>: the 128-bit key.\<close>

definition add_uniqExact_string ::
  "bool \<Rightarrow> (byte list \<Rightarrow> UInt128) \<Rightarrow> UInt128 HashSet \<Rightarrow> StringRef list \<Rightarrow> nat \<Rightarrow> UInt128 HashSet" where
  "add_uniqExact_string ssse3 sipHash128 data_set column row_num =
    (let value = column ! row_num
     in HashSet_insert (uniqExact_string_key ssse3 sipHash128 value) data_set)"

text \<open>The caller adds the rows of a block one after the other, each row once.\<close>

definition add_rows :: "('set \<Rightarrow> 'c list \<Rightarrow> nat \<Rightarrow> 'set) \<Rightarrow> 'set \<Rightarrow> 'c list \<Rightarrow> 'set" where
  "add_rows add place column = fold (\<lambda>row_num p. add p column row_num) [0..<length column] place"

text \<open>\<open>merge\<close> and \<open>insertResultInto\<close> of \<open>uniqExact\<close>; the result column is \<open>ColumnUInt64\<close>.\<close>

definition merge_uniqExact :: "'k HashSet \<Rightarrow> 'k HashSet \<Rightarrow> 'k HashSet" where
  "merge_uniqExact place rhs = HashSet_merge place rhs"

definition insertResultInto_uniqExact :: "'k HashSet \<Rightarrow> UInt64 list \<Rightarrow> UInt64 list" where
  "insertResultInto_uniqExact place to = to @ [of_nat (HashSet_size place)]"

section \<open>The aggregate function of several arguments: \<open>AggregateFunctionUniqVariadic\<close>\<close>

text \<open>
  Of a data type, the constructor only asks whether it is a tuple and, if so, how many
  elements it has.
\<close>

datatype DataType = DataTypeTuple "DataType list" | DataTypeOther

fun is_tuple :: "DataType \<Rightarrow> bool" where
  "is_tuple (DataTypeTuple elems) = True"
| "is_tuple DataTypeOther = False"

datatype exception = InvalidArgument | BadCast

record UniqVariadic =
  is_exact :: bool
  argument_is_tuple :: bool
  num_args :: nat

text \<open>
  The constructor, lines 313 to 320. \<open>typeid_cast<const DataTypeTuple &>\<close> throws when
  the type is not a tuple. \<open>arguments[0]\<close> of an empty list has no defined behaviour in
  C++; the model makes it the same failure.
\<close>

definition AggregateFunctionUniqVariadic :: "bool \<Rightarrow> bool \<Rightarrow> DataType list \<Rightarrow> exception + UniqVariadic" where
  "AggregateFunctionUniqVariadic exact tuple arguments =
    (if tuple then
       (case arguments of
          DataTypeTuple elems # rest \<Rightarrow>
            Inr \<lparr>is_exact = exact, argument_is_tuple = tuple, num_args = length elems\<rparr>
        | _ \<Rightarrow> Inl BadCast)
     else Inr \<lparr>is_exact = exact, argument_is_tuple = tuple, num_args = length arguments\<rparr>)"

text \<open>
  \<open>add\<close>, lines 329 to 333: one insertion of the hash of the row, for every row. The hash
  \<open>UniqVariadicHash::apply\<close> and the insertion of the set are parameters. Nothing here
  throws.
\<close>

definition add_variadic ::
  "('h \<Rightarrow> 'set \<Rightarrow> 'set) \<Rightarrow> (bool \<Rightarrow> bool \<Rightarrow> nat \<Rightarrow> 'c list \<Rightarrow> nat \<Rightarrow> 'h) \<Rightarrow>
   UniqVariadic \<Rightarrow> 'set \<Rightarrow> 'c list \<Rightarrow> nat \<Rightarrow> 'set" where
  "add_variadic set_insert apply f place columns row_num =
    set_insert (apply (is_exact f) (argument_is_tuple f) (num_args f) columns row_num) place"

text \<open>
  Modelled from the spec: the setup of the function from the types of its arguments (the
  factory, \<open>AggregateFunctionUniq.cpp\<close>, is not among the sources). Section 7: "Invalid
  call configuration (tuple argument combined with additional scalar arguments; zero
  arguments) fails with an \<open>InvalidArgument\<close> error at setup time, before any row is
  processed". Section 4.1: "N explicit column arguments, or a single tuple argument whose
  element count is N".
\<close>

definition createAggregateFunctionUniqVariadic :: "bool \<Rightarrow> DataType list \<Rightarrow> exception + UniqVariadic" where
  "createAggregateFunctionUniqVariadic exact arguments =
    (if arguments = [] then Inl InvalidArgument
     else if 1 < length arguments \<and> list_ex is_tuple arguments then Inl InvalidArgument
     else AggregateFunctionUniqVariadic exact (is_tuple (hd arguments)) arguments)"

section \<open>Little-endian words and the mixing step\<close>

lemma le64_Cons: "le64 (b # bs) = ucast b OR push_bit 8 (le64 bs)"
  by (simp add: le64_def)

lemma bit_le64: "bit (le64 bs) n \<longleftrightarrow> n < 64 \<and> n div 8 < length bs \<and> bit (bs ! (n div 8)) (n mod 8)"
proof (induction bs arbitrary: n)
  case Nil
  then show ?case by (simp add: le64_def)
next
  case (Cons b bs)
  show ?case
  proof (cases "n < 8")
    case True
    then show ?thesis
      by (simp add: le64_Cons bit_simps)
  next
    case False
    then have n8: "8 \<le> n" by simp
    then have d: "n div 8 = Suc ((n - 8) div 8)" and m: "n mod 8 = (n - 8) mod 8"
      by (simp_all add: le_div_geq le_mod_geq)
    have nb: "\<not> bit b n"
      using n8 bit_imp_le_length [of b n] by auto
    have "bit (le64 (b # bs)) n \<longleftrightarrow> n < 64 \<and> bit (le64 bs) (n - 8)"
      using n8 nb by (auto simp add: le64_Cons bit_simps)
    also have "\<dots> \<longleftrightarrow> n < 64 \<and> (n - 8) div 8 < length bs \<and> bit (bs ! ((n - 8) div 8)) ((n - 8) mod 8)"
      using n8 by (auto simp add: Cons.IH)
    finally show ?thesis
      by (simp add: d m)
  qed
qed

lemma le64_inject:
  assumes "length as = 8" "length bs = 8" "le64 as = le64 bs"
  shows "as = bs"
proof (rule nth_equalityI)
  show "length as = length bs" using assms by simp
next
  fix i assume "i < length as"
  then have i: "i < 8" using assms by simp
  show "as ! i = bs ! i"
  proof (rule bit_eqI)
    fix k assume "possible_bit TYPE(byte) k"
    then have k: "k < 8" by simp
    have dm: "(8 * i + k) div 8 = i" "(8 * i + k) mod 8 = k" "8 * i + k < 64"
      using i k by simp_all
    have a: "bit (le64 as) (8 * i + k) \<longleftrightarrow> bit (as ! i) k"
      unfolding bit_le64 dm using assms(1) i k by simp
    have b: "bit (le64 bs) (8 * i + k) \<longleftrightarrow> bit (bs ! i) k"
      unfolding bit_le64 dm using assms(2) i k by simp
    from a b assms(3) show "bit (as ! i) k \<longleftrightarrow> bit (bs ! i) k"
      by simp
  qed
qed

lemma xorshift33_involution: "(x XOR drop_bit 33 x) XOR drop_bit 33 (x XOR drop_bit 33 x) = (x :: UInt64)"
  by (auto simp add: bit_eq_iff bit_simps)

lemma mult_c1_inject: "x * 0xff51afd7ed558ccd = y * 0xff51afd7ed558ccd \<Longrightarrow> x = (y :: UInt64)"
proof -
  assume h: "x * 0xff51afd7ed558ccd = y * 0xff51afd7ed558ccd"
  have inv: "(0xff51afd7ed558ccd :: UInt64) * 0x4f74430c22a54005 = 1" by simp
  have "x = x * (0xff51afd7ed558ccd * 0x4f74430c22a54005)" by (simp only: inv mult_1_right)
  also have "\<dots> = (x * 0xff51afd7ed558ccd) * 0x4f74430c22a54005" by (simp only: mult.assoc)
  also have "\<dots> = (y * 0xff51afd7ed558ccd) * 0x4f74430c22a54005" by (simp only: h)
  also have "\<dots> = y * (0xff51afd7ed558ccd * 0x4f74430c22a54005)" by (simp only: mult.assoc)
  also have "\<dots> = y" by (simp only: inv mult_1_right)
  finally show ?thesis .
qed

lemma mult_c2_inject: "x * 0xc4ceb9fe1a85ec53 = y * 0xc4ceb9fe1a85ec53 \<Longrightarrow> x = (y :: UInt64)"
proof -
  assume h: "x * 0xc4ceb9fe1a85ec53 = y * 0xc4ceb9fe1a85ec53"
  have inv: "(0xc4ceb9fe1a85ec53 :: UInt64) * 0x9cb4b2f8129337db = 1" by simp
  have "x = x * (0xc4ceb9fe1a85ec53 * 0x9cb4b2f8129337db)" by (simp only: inv mult_1_right)
  also have "\<dots> = (x * 0xc4ceb9fe1a85ec53) * 0x9cb4b2f8129337db" by (simp only: mult.assoc)
  also have "\<dots> = (y * 0xc4ceb9fe1a85ec53) * 0x9cb4b2f8129337db" by (simp only: h)
  also have "\<dots> = y * (0xc4ceb9fe1a85ec53 * 0x9cb4b2f8129337db)" by (simp only: mult.assoc)
  also have "\<dots> = y" by (simp only: inv mult_1_right)
  finally show ?thesis .
qed

lemma xorshift33_inject: "x XOR drop_bit 33 x = y XOR drop_bit 33 y \<Longrightarrow> x = (y :: UInt64)"
  by (metis xorshift33_involution)

lemma high_mix_key: "high (mix_key k) = high k"
  by (simp add: mix_key_def Let_def)

lemma xor_right_cancel: "x XOR c = y XOR c \<Longrightarrow> x = (y :: UInt64)"
proof -
  assume "x XOR c = y XOR c"
  then have "(x XOR c) XOR c = (y XOR c) XOR c" by simp
  then show ?thesis by (simp add: xor.assoc)
qed

lemma low_mix_key:
  "low (mix_key k) =
    (let x = (low k XOR drop_bit 33 (low k)) * 0xff51afd7ed558ccd XOR high k;
         y = (x XOR drop_bit 33 x) * 0xc4ceb9fe1a85ec53
     in y XOR drop_bit 33 y)"
  by (simp add: mix_key_def Let_def)

lemma mix_key_inject: "mix_key a = mix_key b \<Longrightarrow> a = b"
proof -
  assume h: "mix_key a = mix_key b"
  then have hi: "high a = high b"
    by (metis high_mix_key)
  define xa where "xa = (low a XOR drop_bit 33 (low a)) * 0xff51afd7ed558ccd XOR high a"
  define xb where "xb = (low b XOR drop_bit 33 (low b)) * 0xff51afd7ed558ccd XOR high b"
  define ya where "ya = (xa XOR drop_bit 33 xa) * 0xc4ceb9fe1a85ec53"
  define yb where "yb = (xb XOR drop_bit 33 xb) * 0xc4ceb9fe1a85ec53"
  from h have "low (mix_key a) = low (mix_key b)" by simp
  then have "ya XOR drop_bit 33 ya = yb XOR drop_bit 33 yb"
    by (simp add: low_mix_key Let_def xa_def xb_def ya_def yb_def)
  then have "ya = yb" by (rule xorshift33_inject)
  then have "xa XOR drop_bit 33 xa = xb XOR drop_bit 33 xb"
    unfolding ya_def yb_def by (rule mult_c2_inject)
  then have "xa = xb" by (rule xorshift33_inject)
  then have "(low a XOR drop_bit 33 (low a)) * 0xff51afd7ed558ccd
     = (low b XOR drop_bit 33 (low b)) * 0xff51afd7ed558ccd"
    unfolding xa_def xb_def hi by (rule xor_right_cancel)
  then have "low a XOR drop_bit 33 (low a) = low b XOR drop_bit 33 (low b)"
    by (rule mult_c1_inject)
  then have "low a = low b" by (rule xorshift33_inject)
  with hi show ?thesis by simp
qed



lemma masks_row:
  assumes "n \<le> 15"
  shows "mm_load_si128_masks n = map of_nat [0..<n] @ replicate (16 - n) (- 1)"
proof -
  from assms have "n \<in> {0, 1, 2, 3, 4, 5, 6, 7, 8, 9, 10, 11, 12, 13, 14, 15}"
    by simp arith
  then show ?thesis
    by (elim insertE emptyE; simp add: mm_load_si128_masks_def masks_def; simp add: eval_nat_numeral)
qed

lemma selector_in_range:
  assumes "i < 16"
  shows "\<not> bit (of_nat i :: byte) 7" and "unat ((of_nat i :: byte) AND 15) = i"
proof -
  from assms have i: "i \<in> {0, 1, 2, 3, 4, 5, 6, 7, 8, 9, 10, 11, 12, 13, 14, 15}"
    by simp arith
  from i show "\<not> bit (of_nat i :: byte) 7"
    by (elim insertE emptyE; simp)
  from i show "unat ((of_nat i :: byte) AND 15) = i"
    by (elim insertE emptyE; simp)
qed

lemma shuffle_pads:
  assumes "length s \<le> 15"
  shows "mm_shuffle_epi8 (mm_loadu_si128 (s @ behind)) (mm_load_si128_masks (length s)) = zero_pad16 s"
proof -
  have sel: "map (\<lambda>m::byte. if bit m 7 then 0 else take 16 (s @ behind) ! unat (m AND 15))
               (map of_nat [0..<length s]) = s" (is "?l = s")
  proof (rule nth_equalityI)
    show "length ?l = length s" by simp
  next
    fix i assume "i < length ?l"
    then have i: "i < length s" by simp
    with assms have "i < 16" by simp
    then show "?l ! i = s ! i"
      using i by (simp add: selector_in_range nth_append)
  qed
  have top: "bit (- 1 :: byte) 7" by simp
  show ?thesis
    unfolding mm_shuffle_epi8_def mm_loadu_si128_def masks_row [OF assms] zero_pad16_def
    using sel top by (simp add: map_replicate_const)
qed

section \<open>The two branches of the exact string key\<close>

lemma storeu_inject:
  assumes "length a = 16" "length b = 16" "mm_storeu_si128 a = mm_storeu_si128 b"
  shows "a = b"
proof -
  from assms(3) have l: "le64 (take 8 a) = le64 (take 8 b)" and h: "le64 (drop 8 a) = le64 (drop 8 b)"
    by (simp_all add: mm_storeu_si128_def)
  have "take 8 a = take 8 b"
    using assms(1,2) l by (intro le64_inject) simp_all
  moreover have "drop 8 a = drop 8 b"
    using assms(1,2) h by (intro le64_inject) simp_all
  ultimately show ?thesis
    by (metis append_take_drop_id)
qed

lemma length_zero_pad16: "length s \<le> 16 \<Longrightarrow> length (zero_pad16 s) = 16"
  by (simp add: zero_pad16_def)

lemma key_short:
  assumes "length s \<le> 15"
  shows "uniqExact_string_key True sip (string_ref s behind) = embedded_key s"
  using assms shuffle_pads [OF assms, of behind]
  by (simp add: uniqExact_string_key_def string_ref_def embedded_key_def)

lemma key_long:
  assumes "15 < length s"
  shows "uniqExact_string_key True sip (string_ref s behind)
    = (sip s)\<lparr>high := high (sip s) OR 0x8000000000000000\<rparr>"
  using assms by (simp add: uniqExact_string_key_def string_ref_def toString_def Let_def)

lemma key_portable: "uniqExact_string_key False sip (string_ref s behind) = sip s"
  by (simp add: uniqExact_string_key_def string_ref_def toString_def)

lemma embedded_key_eq_iff:
  assumes "length s1 \<le> 15" "length s2 \<le> 15"
  shows "embedded_key s1 = embedded_key s2 \<longleftrightarrow> zero_pad16 s1 = zero_pad16 s2"
proof
  assume "embedded_key s1 = embedded_key s2"
  then have "mm_storeu_si128 (zero_pad16 s1) = mm_storeu_si128 (zero_pad16 s2)"
    unfolding embedded_key_def by (rule mix_key_inject)
  then show "zero_pad16 s1 = zero_pad16 s2"
    using assms by (intro storeu_inject length_zero_pad16) simp_all
qed (simp add: embedded_key_def)

lemma zero_pad16_last:
  assumes "length s \<le> 15"
  shows "zero_pad16 s ! 15 = 0"
  using assms by (simp add: zero_pad16_def nth_append)

lemma embedded_tag:
  assumes "length s \<le> 15"
  shows "\<not> bit (high (embedded_key s)) 63"
proof -
  have len: "length (zero_pad16 s) = 16"
    using assms by (simp add: length_zero_pad16)
  then have "drop 8 (zero_pad16 s) ! 7 = zero_pad16 s ! 15"
    by simp
  then have "drop 8 (zero_pad16 s) ! 7 = 0"
    using assms by (simp only: zero_pad16_last)
  then have "\<not> bit (le64 (drop 8 (zero_pad16 s))) 63"
    by (simp add: bit_le64)
  then show ?thesis
    by (simp add: embedded_key_def high_mix_key mm_storeu_si128_def)
qed

lemma zero_pad16_snoc_zero:
  assumes "length s < 16"
  shows "zero_pad16 (s @ [0]) = zero_pad16 s"
proof -
  from assms have "16 - length s = Suc (16 - Suc (length s))" by arith
  then show ?thesis
    by (simp add: zero_pad16_def)
qed

lemma hashed_tag: "bit (high (k\<lparr>high := high k OR 0x8000000000000000\<rparr>)) 63"
  by (simp add: bit_simps)

lemma le64_zeros: "le64 (replicate n 0) = 0"
  by (induction n) (simp_all add: le64_def)

lemma embedded_key_empty: "embedded_key [] = \<lparr>low = 0, high = 0\<rparr>"
  by (simp add: embedded_key_def zero_pad16_def mm_storeu_si128_def le64_zeros mix_key_def)

text \<open>
  The padding is the only place where two strings can meet: among strings of one length
  the key of the first branch is injective.
\<close>

lemma zero_pad16_inject_same_length:
  assumes "length sa = length sb" "zero_pad16 sa = zero_pad16 sb"
  shows "sa = sb"
  using assms by (simp add: zero_pad16_def)

lemma uniqExact_key_inject_same_length:
  assumes "length sa = length sb" "length sa \<le> 15"
    and "uniqExact_string_key True sipHash128 (string_ref sa behind_a)
       = uniqExact_string_key True sipHash128 (string_ref sb behind_b)"
  shows "sa = sb"
proof -
  from assms have "embedded_key sa = embedded_key sb"
    by (simp add: key_short)
  with assms(1,2) have "zero_pad16 sa = zero_pad16 sb"
    by (simp add: embedded_key_eq_iff)
  with assms(1) show ?thesis
    by (rule zero_pad16_inject_same_length)
qed

section \<open>Claims about the exact string key\<close>

text \<open>
  C1. The claim: any two distinct strings of at most 15 bytes get different exact keys in
  the SSSE3 path. The code pads the string with zero bytes and does not store its length,
  so the empty string and the string of one zero byte, both valid \<open>String\<close> values, get
  the same key, whatever the hash and whatever follows them in the column.
\<close>

theorem uniqExact_key_trailing_zero_collision:
  "uniqExact_string_key True sipHash128 (string_ref [] behind_a)
     = uniqExact_string_key True sipHash128 (string_ref [0] behind_b)"
  using zero_pad16_snoc_zero [of "[]"] by (simp add: key_short embedded_key_def)

text \<open>
  C3. In the SSSE3 path, a string of at most 15 bytes and a string of more than 15 bytes
  never get the same key: bit 63 of \<open>high\<close> is 0 in the key of the first and 1 in the key
  of the second.
\<close>

theorem embedded_and_hashed_keys_disjoint:
  assumes "length sa \<le> 15" and "15 < length sb"
  shows "uniqExact_string_key True sipHash128 (string_ref sa behind_a)
      \<noteq> uniqExact_string_key True sipHash128 (string_ref sb behind_b)
    \<and> \<not> bit (high (uniqExact_string_key True sipHash128 (string_ref sa behind_a))) 63
    \<and> bit (high (uniqExact_string_key True sipHash128 (string_ref sb behind_b))) 63"
proof -
  have a: "\<not> bit (high (uniqExact_string_key True sipHash128 (string_ref sa behind_a))) 63"
    using assms(1) by (simp add: key_short embedded_tag)
  have b: "bit (high (uniqExact_string_key True sipHash128 (string_ref sb behind_b))) 63"
    using assms(2) by (simp only: key_long hashed_tag)
  from a b show ?thesis by metis
qed

theorem embedded_and_hashed_keys_disjoint_witness:
  "length (bytes_of ''a'') \<le> 15 \<and> 15 < length (bytes_of ''0123456789abcdef'')
    \<and> uniqExact_string_key True (\<lambda>s. \<lparr>low = 0, high = 0\<rparr>) (string_ref (bytes_of ''a'') [])
      \<noteq> uniqExact_string_key True (\<lambda>s. \<lparr>low = 0, high = 0\<rparr>)
          (string_ref (bytes_of ''0123456789abcdef'') [0])"
proof -
  have a: "length (bytes_of ''a'') \<le> 15" and b: "15 < length (bytes_of ''0123456789abcdef'')"
    by (simp_all add: bytes_of_def)
  from embedded_and_hashed_keys_disjoint [OF a b] a b show ?thesis
    by blast
qed

text \<open>
  C2. The claim: the build without SSSE3 gives every string the key that the SSSE3 build
  gives it. What the code does: without SSSE3 the key of every string is its 128-bit hash,
  untouched; with SSSE3 the key of a string of at most 15 bytes is the mixed padded
  string, whatever the hash, and the key of a longer string is the same hash with bit 63
  of \<open>high\<close> set.

  The claim fails: the two builds can agree on all strings only for a hash that gives the
  empty string and the string of one zero byte the same value, since the SSSE3 build gives
  these two one key and the other build gives each its hash.
\<close>

theorem portable_and_ssse3_keys:
  "uniqExact_string_key False sipHash128 (string_ref s behind) = sipHash128 s
   \<and> uniqExact_string_key True sipHash128 (string_ref s behind) =
       (if length s \<le> 15 then embedded_key s
        else (sipHash128 s)\<lparr>high := high (sipHash128 s) OR 0x8000000000000000\<rparr>)"
  by (simp add: key_portable key_short key_long)

theorem portable_key_not_identical:
  "\<not> (\<forall>sipHash128 v. uniqExact_string_key False sipHash128 v
        = uniqExact_string_key True sipHash128 v)
   \<and> (\<forall>sipHash128. \<not> (sipHash128 [] \<noteq> sipHash128 [0]
        \<and> (\<forall>v. uniqExact_string_key False sipHash128 v
              = uniqExact_string_key True sipHash128 v)))"
proof -
  have no: "sip [] = sip [0]"
    if h: "\<forall>v. uniqExact_string_key False sip v = uniqExact_string_key True sip v" for sip
  proof -
    have "uniqExact_string_key False sip (string_ref s []) = uniqExact_string_key True sip (string_ref s [])" for s
      using h by blast
    then have e: "sip s = embedded_key s" if "length s \<le> 15" for s
      using that by (simp add: key_portable key_short)
    have "sip [0] = embedded_key [0]"
      by (rule e) simp
    also have "\<dots> = embedded_key []"
      using zero_pad16_snoc_zero [of "[]"] by (simp add: embedded_key_def)
    also have "\<dots> = sip []"
      by (rule e [symmetric]) simp
    finally show ?thesis by simp
  qed
  define sip :: "byte list \<Rightarrow> UInt128"
    where "sip = (\<lambda>s. \<lparr>low = of_nat (length s), high = 0\<rparr>)"
  have "sip [] \<noteq> sip [0]"
    by (simp add: sip_def)
  with no [of sip] have "\<not> (\<forall>v. uniqExact_string_key False sip v = uniqExact_string_key True sip v)"
    by blast
  then have first: "\<not> (\<forall>sipHash128 v. uniqExact_string_key False sipHash128 v
        = uniqExact_string_key True sipHash128 v)"
    by blast
  from no have second: "\<forall>sipHash128. \<not> (sipHash128 [] \<noteq> sipHash128 [0]
        \<and> (\<forall>v. uniqExact_string_key False sipHash128 v
              = uniqExact_string_key True sipHash128 v))"
    by blast
  from first second show ?thesis ..
qed

section \<open>Rows, columns and the exact set\<close>

lemma set_fold_HashSet_insert: "set (fold HashSet_insert xs t) = set t \<union> set xs"
  by (induction xs arbitrary: t) (auto simp add: HashSet_insert_def)

lemma distinct_fold_HashSet_insert: "distinct t \<Longrightarrow> distinct (fold HashSet_insert xs t)"
  by (induction xs arbitrary: t) (simp_all add: HashSet_insert_def)

text \<open>
  The merge of the exact set is the union of the two key sets; merging a state with
  itself changes nothing, and the three ways of merging three states give the same size.
\<close>

lemma set_HashSet_merge: "set (HashSet_merge t rhs) = set t \<union> set rhs"
  by (simp add: HashSet_merge_def set_fold_HashSet_insert)

lemma distinct_HashSet_merge: "distinct t \<Longrightarrow> distinct (HashSet_merge t rhs)"
  by (simp add: HashSet_merge_def distinct_fold_HashSet_insert)

lemma HashSet_size_merge: "distinct t \<Longrightarrow> HashSet_size (HashSet_merge t rhs) = card (set t \<union> set rhs)"
  using distinct_card [OF distinct_HashSet_merge, of t rhs]
  by (simp add: HashSet_size_def set_HashSet_merge)

lemma HashSet_merge_idem: "HashSet_merge t t = t"
proof -
  have "set xs \<subseteq> set t \<Longrightarrow> fold HashSet_insert xs t = t" for xs
    by (induction xs) (simp_all add: HashSet_insert_def)
  then show ?thesis
    by (simp add: HashSet_merge_def)
qed

lemma HashSet_merge_groupings:
  assumes "distinct a"
  shows "HashSet_size (merge_uniqExact (merge_uniqExact a b) c)
       = HashSet_size (merge_uniqExact a (merge_uniqExact b c))"
    and "HashSet_size (merge_uniqExact (merge_uniqExact a b) c)
       = HashSet_size (merge_uniqExact (merge_uniqExact a c) b)"
  using assms
  by (simp_all add: merge_uniqExact_def HashSet_size_merge distinct_HashSet_merge
      set_HashSet_merge Un_assoc Un_left_commute Un_commute)

lemma add_rows_nth:
  "add_rows (\<lambda>p column row_num. f (column ! row_num) p) place column = fold f column place"
proof -
  have "fold (\<lambda>row_num p. f (column ! row_num) p) [0..<length column] place
      = fold f (map (nth column) [0..<length column]) place"
    by (simp add: fold_map comp_def)
  then show ?thesis
    by (simp add: add_rows_def map_nth)
qed

lemma add_rows_uniqExact_number:
  "add_rows add_uniqExact_number place column = fold HashSet_insert column place"
  using add_rows_nth [of HashSet_insert place column]
  by (simp add: add_uniqExact_number_def [abs_def])

lemma add_rows_uniqExact_string:
  "add_rows (add_uniqExact_string ssse3 sip) place column
    = fold HashSet_insert (map (uniqExact_string_key ssse3 sip) column) place"
  using add_rows_nth [of "\<lambda>v. HashSet_insert (uniqExact_string_key ssse3 sip v)" place column]
  by (simp add: add_uniqExact_string_def [abs_def] Let_def fold_map comp_def)

lemma zero_pad16_nth:
  "i < length s \<Longrightarrow> zero_pad16 s ! i = s ! i"
  "length s \<le> i \<Longrightarrow> i < 16 \<Longrightarrow> zero_pad16 s ! i = 0"
  by (simp_all add: zero_pad16_def nth_append)

lemma four_keys_size:
  assumes "distinct [ka, kb, kc, kbb]"
  shows "fold HashSet_insert [ka, ka, kb, kc, kbb, kb] [] = [ka, kb, kc, kbb]"
    and "HashSet_merge (fold HashSet_insert [ka, ka, kb] []) (fold HashSet_insert [kc, kbb, kb] [])
         = [ka, kb, kc, kbb]"
  using assms by (auto simp add: HashSet_insert_def HashSet_merge_def)

lemma embedded_keys_abc:
  "distinct (map embedded_key [bytes_of ''a'', bytes_of ''b'', bytes_of ''c'', bytes_of ''bb''])"
proof -
  have ne: "zero_pad16 s1 ! i \<noteq> zero_pad16 s2 ! i \<Longrightarrow> zero_pad16 s1 \<noteq> zero_pad16 s2" for s1 s2 i
    by auto
  have "zero_pad16 (bytes_of ''a'') \<noteq> zero_pad16 (bytes_of ''b'')"
       "zero_pad16 (bytes_of ''a'') \<noteq> zero_pad16 (bytes_of ''c'')"
       "zero_pad16 (bytes_of ''a'') \<noteq> zero_pad16 (bytes_of ''bb'')"
       "zero_pad16 (bytes_of ''b'') \<noteq> zero_pad16 (bytes_of ''c'')"
       "zero_pad16 (bytes_of ''c'') \<noteq> zero_pad16 (bytes_of ''bb'')"
    by (rule ne [of _ 0]; simp add: zero_pad16_nth bytes_of_def)+
  moreover have "zero_pad16 (bytes_of ''b'') \<noteq> zero_pad16 (bytes_of ''bb'')"
    by (rule ne [of _ 1]; simp add: zero_pad16_nth bytes_of_def)
  ultimately show ?thesis
    by (simp add: embedded_key_eq_iff bytes_of_def)
qed


lemma four_strings_keys:
  assumes "ssse3 \<or> distinct (map sipHash128 [bytes_of ''a'', bytes_of ''b'', bytes_of ''c'', bytes_of ''bb''])"
  shows "distinct (map (\<lambda>s. uniqExact_string_key ssse3 sipHash128 (string_ref s [])) 
      [bytes_of ''a'', bytes_of ''b'', bytes_of ''c'', bytes_of ''bb''])"
proof (cases ssse3)
  case True
  have "uniqExact_string_key True sipHash128 (string_ref (bytes_of cs) bs) = embedded_key (bytes_of cs)"
    if "length cs \<le> 15" for cs bs
    using that by (simp add: key_short bytes_of_def)
  with True embedded_keys_abc show ?thesis
    by simp
next
  case False
  with assms show ?thesis
    by (simp add: key_portable)
qed

lemma key_behind: "uniqExact_string_key ssse3 sipHash128 (string_ref s behind)
  = uniqExact_string_key ssse3 sipHash128 (string_ref s [])"
proof (cases ssse3)
  case True
  show ?thesis
  proof (cases "length s \<le> 15")
    case True
    with \<open>ssse3\<close> show ?thesis by (simp add: key_short)
  next
    case False
    with \<open>ssse3\<close> show ?thesis by (simp add: key_long)
  qed
next
  case False
  then show ?thesis by (simp add: key_portable)
qed

text \<open>
  C4. The strings "a", "a", "b", "c", "bb", "b" added to an empty state of \<open>uniqExact\<close> give
  the result 4, and so do the states of "a", "a", "b" and of "c", "bb", "b" once merged.
  With SSSE3 this holds for every hash and whatever follows the strings in the column;
  without SSSE3 the keys are the hashes, and the hypothesis is that the hash of the four
  strings has no collision.
\<close>

theorem uniqExact_six_strings:
  assumes "ssse3 \<or> distinct (map sipHash128 [bytes_of ''a'', bytes_of ''b'', bytes_of ''c'', bytes_of ''bb''])"
  shows "insertResultInto_uniqExact
      (add_rows (add_uniqExact_string ssse3 sipHash128) []
        [string_ref (bytes_of ''a'') b1, string_ref (bytes_of ''a'') b2, string_ref (bytes_of ''b'') b3,
         string_ref (bytes_of ''c'') b4, string_ref (bytes_of ''bb'') b5, string_ref (bytes_of ''b'') b6]) []
      = [4]
    \<and> insertResultInto_uniqExact
      (merge_uniqExact
        (add_rows (add_uniqExact_string ssse3 sipHash128) []
          [string_ref (bytes_of ''a'') b1, string_ref (bytes_of ''a'') b2, string_ref (bytes_of ''b'') b3])
        (add_rows (add_uniqExact_string ssse3 sipHash128) []
          [string_ref (bytes_of ''c'') b4, string_ref (bytes_of ''bb'') b5, string_ref (bytes_of ''b'') b6])) []
      = [4]"
proof -
  define k where "k = (\<lambda>s. uniqExact_string_key ssse3 sipHash128 (string_ref s []))"
  have kb: "uniqExact_string_key ssse3 sipHash128 (string_ref s behind) = k s" for s behind
    unfolding k_def by (rule key_behind)
  have d: "distinct [k (bytes_of ''a''), k (bytes_of ''b''), k (bytes_of ''c''), k (bytes_of ''bb'')]"
    using four_strings_keys [OF assms] by (simp add: k_def)
  have one: "add_rows (add_uniqExact_string ssse3 sipHash128) []
        [string_ref (bytes_of ''a'') b1, string_ref (bytes_of ''a'') b2, string_ref (bytes_of ''b'') b3,
         string_ref (bytes_of ''c'') b4, string_ref (bytes_of ''bb'') b5, string_ref (bytes_of ''b'') b6]
      = [k (bytes_of ''a''), k (bytes_of ''b''), k (bytes_of ''c''), k (bytes_of ''bb'')]"
    by (simp only: add_rows_uniqExact_string list.map kb four_keys_size(1) [OF d])
  have two: "merge_uniqExact
        (add_rows (add_uniqExact_string ssse3 sipHash128) []
          [string_ref (bytes_of ''a'') b1, string_ref (bytes_of ''a'') b2, string_ref (bytes_of ''b'') b3])
        (add_rows (add_uniqExact_string ssse3 sipHash128) []
          [string_ref (bytes_of ''c'') b4, string_ref (bytes_of ''bb'') b5, string_ref (bytes_of ''b'') b6])
      = [k (bytes_of ''a''), k (bytes_of ''b''), k (bytes_of ''c''), k (bytes_of ''bb'')]"
    by (simp only: add_rows_uniqExact_string list.map kb merge_uniqExact_def four_keys_size(2) [OF d])
  show ?thesis
    by (simp add: one two insertResultInto_uniqExact_def HashSet_size_def)
qed

theorem uniqExact_six_strings_witness:
  "insertResultInto_uniqExact
      (add_rows (add_uniqExact_string True (\<lambda>s. \<lparr>low = 0, high = 0\<rparr>)) []
        [string_ref (bytes_of ''a'') [0], string_ref (bytes_of ''a'') [0, 98, 0],
         string_ref (bytes_of ''b'') [0], string_ref (bytes_of ''c'') [0],
         string_ref (bytes_of ''bb'') [0], string_ref (bytes_of ''b'') []]) []
      = [4]"
  using uniqExact_six_strings [of True "\<lambda>s. \<lparr>low = 0, high = 0\<rparr>"] by simp

text \<open>
  C9. Over a column of a type other than \<open>String\<close>, \<open>add\<close> of \<open>uniqExact\<close> inserts the value
  of the row itself: after all rows of a column are added to an empty state, the set holds
  exactly the values of the column, and the result is the number of distinct values.
\<close>

theorem uniqExact_number_counts_distinct:
  "set (add_rows add_uniqExact_number [] column) = set column
   \<and> HashSet_size (add_rows add_uniqExact_number [] column) = card (set column)
   \<and> insertResultInto_uniqExact (add_rows add_uniqExact_number [] column) []
       = [of_nat (card (set column))]"
proof -
  let ?t = "add_rows add_uniqExact_number [] column"
  have s: "set ?t = set column"
    by (simp add: add_rows_uniqExact_number set_fold_HashSet_insert)
  have "distinct ?t"
    by (simp add: add_rows_uniqExact_number distinct_fold_HashSet_insert)
  then have "length ?t = card (set ?t)"
    by (simp add: distinct_card)
  with s show ?thesis
    by (simp add: HashSet_size_def insertResultInto_uniqExact_def)
qed

section \<open>Claims about the approximate key of a number\<close>

lemma uint_scast_64: "uint (scast (w :: 'a::len word) :: UInt64) = sint w mod 2 ^ 64"
proof -
  have "uint (word_of_int (sint w) :: UInt64) = sint w mod 2 ^ LENGTH(64)"
    by (rule uint_word_of_int)
  then show ?thesis
    by (simp only: scast_eq [symmetric]) simp
qed

lemma add_rows_uniq_number:
  "add_rows (add_uniq_number set_insert sipHash64 DefaultHash64) place column
    = fold set_insert (map (hash sipHash64 DefaultHash64) column) place"
  using add_rows_nth [of "\<lambda>v. set_insert (hash sipHash64 DefaultHash64 v)" place column]
  by (simp add: add_uniq_number_def [abs_def] Let_def fold_map comp_def)

lemma bit_cast_32_inject: "bit_cast_UInt64 (a :: 32 word) = bit_cast_UInt64 b \<longleftrightarrow> a = b"
proof
  assume "bit_cast_UInt64 a = bit_cast_UInt64 b"
  then have "uint (ucast a :: UInt64) = uint (ucast b :: UInt64)"
    by (simp add: bit_cast_UInt64_def)
  then have "uint a = uint b"
    by (simp add: uint_up_ucast is_up)
  then show "a = b" by (rule word_uint_eqI)
qed simp

text \<open>
  C7. The key that \<open>uniq\<close> and \<open>uniqHLL12\<close> insert for a number: an integer of at most 64
  bits keeps its value (an unsigned one read as unsigned, a signed one read as signed, that
  is its value modulo \<open>2 ^ 64\<close>); a \<open>Float32\<close> or \<open>Float64\<close> gives its bit pattern; a
  \<open>UInt128\<close> gives its \<open>sipHash64\<close>.
\<close>

theorem uniq_key_of_number:
  "uint (hash sipHash64 DefaultHash64 (VUInt8 a8)) = uint a8
   \<and> uint (hash sipHash64 DefaultHash64 (VUInt16 a16)) = uint a16
   \<and> uint (hash sipHash64 DefaultHash64 (VUInt32 a32)) = uint a32
   \<and> uint (hash sipHash64 DefaultHash64 (VUInt64 a64)) = uint a64
   \<and> sint (hash sipHash64 DefaultHash64 (VInt8 i8)) = sint i8
   \<and> sint (hash sipHash64 DefaultHash64 (VInt16 i16)) = sint i16
   \<and> sint (hash sipHash64 DefaultHash64 (VInt32 i32)) = sint i32
   \<and> sint (hash sipHash64 DefaultHash64 (VInt64 i64)) = sint i64
   \<and> uint (hash sipHash64 DefaultHash64 (VInt8 i8)) = sint i8 mod 2 ^ 64
   \<and> uint (hash sipHash64 DefaultHash64 (VInt16 i16)) = sint i16 mod 2 ^ 64
   \<and> uint (hash sipHash64 DefaultHash64 (VInt32 i32)) = sint i32 mod 2 ^ 64
   \<and> uint (hash sipHash64 DefaultHash64 (VFloat32 f32)) = uint f32
   \<and> hash sipHash64 DefaultHash64 (VFloat64 f64) = f64
   \<and> hash sipHash64 DefaultHash64 (VUInt128 u128) = sipHash64 u128"
  by (simp add: bit_cast_UInt64_def uint_up_ucast is_up sint_up_scast uint_scast_64)

text \<open>
  What \<open>add\<close> of \<open>uniq\<close> and \<open>uniqHLL12\<close> passes on for a column of floating-point numbers:
  one insertion per row, of the bit pattern of the row, and two rows get the same hash only
  when their bit patterns are equal (+0.0 and -0.0, and two NaN with different payloads,
  get different hashes). How many values the set then counts is decided by the set, which
  is a parameter here.
\<close>

lemma uniq_float_keys_are_bit_patterns:
  "add_rows (add_uniq_number set_insert sipHash64 DefaultHash64) place (map VFloat64 bits64)
      = fold set_insert bits64 place
   \<and> add_rows (add_uniq_number set_insert sipHash64 DefaultHash64) place (map VFloat32 bits32)
      = fold set_insert (map ucast bits32) place
   \<and> (hash sipHash64 DefaultHash64 (VFloat64 a) = hash sipHash64 DefaultHash64 (VFloat64 b)) = (a = b)
   \<and> (hash sipHash64 DefaultHash64 (VFloat32 c) = hash sipHash64 DefaultHash64 (VFloat32 d)) = (c = d)
   \<and> hash sipHash64 DefaultHash64 (VFloat64 0) \<noteq> hash sipHash64 DefaultHash64 (VFloat64 0x8000000000000000)
   \<and> hash sipHash64 DefaultHash64 (VFloat32 0) \<noteq> hash sipHash64 DefaultHash64 (VFloat32 0x80000000)
   \<and> hash sipHash64 DefaultHash64 (VFloat64 0x7FF8000000000000)
        \<noteq> hash sipHash64 DefaultHash64 (VFloat64 0x7FF8000000000001)
   \<and> hash sipHash64 DefaultHash64 (VFloat32 0x7FC00000)
        \<noteq> hash sipHash64 DefaultHash64 (VFloat32 0x7FC00001)"
proof -
  have f64: "map (hash sipHash64 DefaultHash64) (map VFloat64 bits64) = bits64"
    by (simp add: comp_def bit_cast_UInt64_def)
  have f32: "map (hash sipHash64 DefaultHash64) (map VFloat32 bits32) = map ucast bits32"
    by (simp add: comp_def bit_cast_UInt64_def)
  have i64: "(hash sipHash64 DefaultHash64 (VFloat64 a) = hash sipHash64 DefaultHash64 (VFloat64 b)) = (a = b)" for a b
    by (simp add: bit_cast_UInt64_def)
  have i32: "(hash sipHash64 DefaultHash64 (VFloat32 c) = hash sipHash64 DefaultHash64 (VFloat32 d)) = (c = d)" for c d
    by (simp add: bit_cast_32_inject)
  show ?thesis
    unfolding add_rows_uniq_number f64 f32 i64 i32 by simp
qed

section \<open>Claims about the setup of the variadic function\<close>

text \<open>
  C8. No arguments, or a tuple among several arguments, make the setup fail with
  \<open>InvalidArgument\<close>, before any row is seen. Every other list of arguments gives a
  function: the constructor's cast cannot fail there, and the function counts the elements
  of the single tuple or else the arguments. \<open>add\<close> of that function is a plain insertion
  (\<open>add_variadic\<close> has no failure).
\<close>

theorem variadic_setup:
  "createAggregateFunctionUniqVariadic exact arguments =
    (if arguments = [] \<or> (1 < length arguments \<and> list_ex is_tuple arguments)
     then Inl InvalidArgument
     else Inr \<lparr>is_exact = exact, argument_is_tuple = is_tuple (hd arguments),
       num_args = (case hd arguments of DataTypeTuple elems \<Rightarrow> length elems
                   | DataTypeOther \<Rightarrow> length arguments)\<rparr>)"
proof (cases arguments)
  case Nil
  then show ?thesis
    by (simp add: createAggregateFunctionUniqVariadic_def)
next
  case (Cons a rest)
  then show ?thesis
    by (cases a) (simp_all add: createAggregateFunctionUniqVariadic_def
        AggregateFunctionUniqVariadic_def)
qed

theorem variadic_setup_witness:
  "createAggregateFunctionUniqVariadic False [] = Inl InvalidArgument
   \<and> createAggregateFunctionUniqVariadic True
       [DataTypeTuple [DataTypeOther, DataTypeOther], DataTypeOther] = Inl InvalidArgument
   \<and> createAggregateFunctionUniqVariadic True
       [DataTypeOther, DataTypeTuple [DataTypeOther]] = Inl InvalidArgument
   \<and> createAggregateFunctionUniqVariadic True [DataTypeTuple [DataTypeOther, DataTypeOther]]
       = Inr \<lparr>is_exact = True, argument_is_tuple = True, num_args = 2\<rparr>"
  using variadic_setup [of False "[]"]
    variadic_setup [of True "[DataTypeTuple [DataTypeOther, DataTypeOther], DataTypeOther]"]
    variadic_setup [of True "[DataTypeOther, DataTypeTuple [DataTypeOther]]"]
    variadic_setup [of True "[DataTypeTuple [DataTypeOther, DataTypeOther]]"]
  by simp

end
